theory Spec2Isabelle
  imports Main "HOL-Library.Word"
begin

section \<open>Python values used by app.py\<close>

text \<open>
  Exceptions are values. \<open>Exception msg\<close> stands for whatever an external collaborator
  (the wave module, the Vosk recognizer, json.loads, the transformers pipeline) raises;
  \<open>IndexError\<close> and \<open>KeyError\<close> are the two exceptions the code of app.py can raise itself,
  by \<^verbatim>\<open>out[0]["summary_text"]\<close>.
\<close>

datatype exn = Exception string | IndexError | KeyError

text \<open>
  Both pipeline functions return a Python pair \<^verbatim>\<open>(value, error)\<close> in which exactly one
  component is \<^verbatim>\<open>None\<close>.
\<close>

type_synonym result = "string option \<times> string option"

type_synonym byte = "8 word"

text \<open>A JSON object or Python dict with string values, as an association list.\<close>

type_synonym dict = "(string \<times> string) list"

text \<open>\<^verbatim>\<open>d.get(key, default)\<close>\<close>

definition dict_get :: "dict \<Rightarrow> string \<Rightarrow> string \<Rightarrow> string" where
  "dict_get d key dflt = (case map_of d key of None \<Rightarrow> dflt | Some v \<Rightarrow> v)"

subsection \<open>str.strip and str.join\<close>

text \<open>
  \<^verbatim>\<open>str.strip()\<close> removes leading and trailing whitespace. A \<open>char\<close> is one code point
  below 256; the whitespace code points of Python in that range are 9 to 13, 28 to 32,
  133 and 160.
\<close>

definition isspace :: "char \<Rightarrow> bool" where
  "isspace c = (c \<in> set [CHR 0x09, CHR 0x0A, CHR 0x0B, CHR 0x0C, CHR 0x0D,
                          CHR 0x1C, CHR 0x1D, CHR 0x1E, CHR 0x1F, CHR 0x20,
                          CHR 0x85, CHR 0xA0])"

definition lstrip :: "string \<Rightarrow> string" where
  "lstrip s = dropWhile isspace s"

definition rstrip :: "string \<Rightarrow> string" where
  "rstrip s = rev (dropWhile isspace (rev s))"

definition strip :: "string \<Rightarrow> string" where
  "strip s = rstrip (lstrip s)"

text \<open>\<^verbatim>\<open>sep.join(xs)\<close>\<close>

fun join :: "string \<Rightarrow> string list \<Rightarrow> string" where
  "join sep [] = []"
| "join sep [x] = x"
| "join sep (x # y # ys) = x @ sep @ join sep (y # ys)"

subsection \<open>range and slices\<close>

text \<open>
  \<^verbatim>\<open>range(start, stop, step)\<close> for a positive step, and the slice \<^verbatim>\<open>s[i:j]\<close> for
  \<open>0 \<le> i \<le> j\<close> (Python clips \<open>j\<close> to the length, as \<open>take\<close> does).
\<close>

definition py_range :: "nat \<Rightarrow> nat \<Rightarrow> nat \<Rightarrow> nat list" where
  "py_range start stop step =
     map (\<lambda>k. start + k * step) [0 ..< (stop - start + step - 1) div step]"

definition slice :: "'a list \<Rightarrow> nat \<Rightarrow> nat \<Rightarrow> 'a list" where
  "slice s i j = take (j - i) (drop i s)"

text \<open>
  A function returned an error in the shape of its contract: the pair \<open>(None, message)\<close>.
\<close>

definition returns_error :: "exn + result \<Rightarrow> bool" where
  "returns_error r = (case r of Inr (None, Some msg) \<Rightarrow> True | _ \<Rightarrow> False)"

section \<open>The summarizer: summarize_text_offline\<close>

definition max_chars :: nat where
  "max_chars = 1200"

text \<open>The f-string of lines 120 to 131, with the transcript interpolated once.\<close>

definition prompt_of :: "string \<Rightarrow> string" where
  "prompt_of text =
     ''\<newline>You are an expert meeting summarizer.\<newline>\<newline>Create a contextual summary with:\<newline>1) Main topic\<newline>2) Key points (bullets)\<newline>3) Action items (if any)\<newline>4) Important entities (names, dates, places)\<newline>\<newline>Transcript:\<newline>''
     @ text @ ''\<newline>''"

text \<open>
  \<^verbatim>\<open>chunks = [prompt[i:i + max_chars] for i in range(0, len(prompt), max_chars)]\<close>
\<close>

definition chunks_of :: "'a list \<Rightarrow> 'a list list" where
  "chunks_of prompt =
     map (\<lambda>i. slice prompt i (i + max_chars)) (py_range 0 (length prompt) max_chars)"

text \<open>
  The transformers pipeline \<^verbatim>\<open>summarizer\<close> is an external collaborator. It is called as
  \<^verbatim>\<open>summarizer(chunk, max_length=160, min_length=60, do_sample=False)\<close> and answers with
  a list of dicts or raises. Whatever hidden state the generation owns (a random
  generator for sampling, caches) is the component \<open>'g\<close>, threaded through the calls.
\<close>

type_synonym 'g summarizer =
  "'g \<Rightarrow> string \<Rightarrow> nat \<Rightarrow> nat \<Rightarrow> bool \<Rightarrow> (exn + dict list) \<times> 'g"

text \<open>One call of the pipeline as the code made it, with the answer it got.\<close>

record model_call =
  chunk :: string
  max_length :: nat
  min_length :: nat
  do_sample :: bool
  response :: "exn + dict list"

text \<open>\<^verbatim>\<open>out[0]["summary_text"]\<close>, on the answer of one call.\<close>

definition summary_text :: "exn + dict list \<Rightarrow> exn + string" where
  "summary_text r =
     (case r of
        Inl e \<Rightarrow> Inl e
      | Inr out \<Rightarrow>
          (case out of
             [] \<Rightarrow> Inl IndexError
           | d # _ \<Rightarrow> (case map_of d ''summary_text'' of None \<Rightarrow> Inl KeyError | Some v \<Rightarrow> Inr v)))"

text \<open>
  The loop of lines 136 to 139. An exception of the call or of the indexing leaves the
  loop at once; \<open>calls\<close> is the log of the calls made so far.
\<close>

fun summarize_chunks ::
  "'g summarizer \<Rightarrow> string list \<Rightarrow> string list \<Rightarrow> 'g \<Rightarrow> model_call list
     \<Rightarrow> (exn + string list) \<times> 'g \<times> model_call list" where
  "summarize_chunks M [] summaries g calls = (Inr summaries, g, calls)"
| "summarize_chunks M (c # rest) summaries g calls =
     (let (r, g') = M g c 160 60 False;
          calls' = calls @ [\<lparr>chunk = c, max_length = 160, min_length = 60,
                             do_sample = False, response = r\<rparr>]
      in case summary_text r of
           Inl e \<Rightarrow> (Inl e, g', calls')
         | Inr s \<Rightarrow> summarize_chunks M rest (summaries @ [s]) g' calls')"

definition EmptyTranscript :: string where
  "EmptyTranscript = ''Empty transcript, cannot summarize.''"

text \<open>
  What one call of \<^verbatim>\<open>summarize_text_offline\<close> leaves behind: the value returned or
  the exception raised, the hidden state of the model, and the log of the calls made.
  Its argument in app.py is the transcript returned by \<^verbatim>\<open>transcribe_audio\<close>, a str, so
  \<^verbatim>\<open>not text\<close> is the test for the empty string.
\<close>

record 'g summarize_run =
  sum_outcome :: "exn + result"
  sum_gen :: 'g
  sum_calls :: "model_call list"

definition summarize_text_offline :: "'g summarizer \<Rightarrow> 'g \<Rightarrow> string \<Rightarrow> 'g summarize_run" where
  "summarize_text_offline M g text =
     (if text = [] \<or> strip text = [] then
        \<lparr>sum_outcome = Inr (None, Some EmptyTranscript), sum_gen = g, sum_calls = []\<rparr>
      else
        (let prompt = prompt_of text;
             chunks = chunks_of prompt
         in case summarize_chunks M chunks [] g [] of
              (Inl e, g', calls) \<Rightarrow> \<lparr>sum_outcome = Inl e, sum_gen = g', sum_calls = calls\<rparr>
            | (Inr summaries, g', calls) \<Rightarrow>
                \<lparr>sum_outcome = Inr (Some (strip (join '' '' summaries)), None),
                 sum_gen = g', sum_calls = calls\<rparr>))"

subsection \<open>Reading the log of model calls\<close>

text \<open>
  The text a call contributed to the summary, and whether a call was made with the
  generation parameters of line 138.
\<close>

definition call_text :: "model_call \<Rightarrow> string" where
  "call_text c = (case summary_text (response c) of Inl e \<Rightarrow> [] | Inr s \<Rightarrow> s)"

definition as_configured :: "model_call \<Rightarrow> bool" where
  "as_configured c = (max_length c = 160 \<and> min_length c = 60 \<and> \<not> do_sample c)"

subsection \<open>The summarization as the specification words it\<close>

text \<open>
  The specification has every chunk fed to the model once, in chunk order. \<open>expected_calls\<close>
  lists those calls with the answers of the model \<open>M\<close> itself, the hidden state of the
  model passed from each call to the next.
\<close>

fun expected_calls :: "'g summarizer \<Rightarrow> 'g \<Rightarrow> string list \<Rightarrow> model_call list" where
  "expected_calls M g [] = []"
| "expected_calls M g (c # cs) =
     \<lparr>chunk = c, max_length = 160, min_length = 60, do_sample = False,
      response = fst (M g c 160 60 False)\<rparr>
     # expected_calls M (snd (M g c 160 60 False)) cs"

text \<open>
  The specification trims leading and trailing whitespace. \<open>trimmed raw t\<close> says that \<open>t\<close>
  is \<open>raw\<close> without a leading and a trailing run of whitespace, and that no whitespace is
  left at either end of \<open>t\<close>.
\<close>

definition trimmed :: "string \<Rightarrow> string \<Rightarrow> bool" where
  "trimmed raw t =
     ((\<exists>lead trail. raw = lead @ t @ trail
         \<and> (\<forall>c \<in> set lead. isspace c) \<and> (\<forall>c \<in> set trail. isspace c))
      \<and> (t = [] \<or> (\<not> isspace (hd t) \<and> \<not> isspace (last t))))"


text \<open>
  A model is deterministic without sampling when, called with \<^verbatim>\<open>do_sample=False\<close>, its
  answer does not depend on the hidden state.
\<close>

definition deterministic_without_sampling :: "'g summarizer \<Rightarrow> bool" where
  "deterministic_without_sampling M =
     (\<forall>g g' c mx mn. fst (M g c mx mn False) = fst (M g' c mx mn False))"

subsection \<open>Concrete models\<close>

text \<open>
  \<open>sampling_model\<close> counts its calls in the hidden state. Without sampling it answers with
  the first five characters of the chunk; with sampling its answer depends on the state.
  \<open>failing_model n\<close> answers \<open>n\<close> calls in the same way and raises from then on.
  \<open>padded_model\<close> answers with the first four characters of the chunk, with two spaces
  before them on its first call and two spaces after them on every later call.
\<close>

definition sampling_model :: "nat summarizer" where
  "sampling_model g c mx mn ds =
     (Inr [[(''summary_text'', if ds then replicate g (CHR ''?'') else take 5 c)]], Suc g)"


definition padded_model :: "nat summarizer" where
  "padded_model g c mx mn ds =
     (Inr [[(''summary_text'',
             (if g = 0 then ''  '' else []) @ take 4 c @ (if g = 0 then [] else ''  ''))]],
      Suc g)"

section \<open>The transcriber: transcribe_audio\<close>

subsection \<open>The wave module\<close>

text \<open>
  A WAV file as \<^verbatim>\<open>wave.open(path, "rb")\<close> parses it: the three header fields the code
  asks for and the bytes of the data chunk.
\<close>

record wav_file =
  nchannels :: nat
  sampwidth :: nat
  framerate :: nat
  frames :: "byte list"

text \<open>The \<^verbatim>\<open>Wave_read\<close> handle: the file, the bytes not read yet, and whether it is closed.\<close>

record wave_read =
  wav :: wav_file
  unread :: "byte list"
  closed :: bool

text \<open>
  \<open>fs\<close> maps a path to the WAV file stored there. \<^verbatim>\<open>wave.open\<close> raises where there is
  no file or the file has no valid header.
\<close>

definition wave_open :: "(string \<rightharpoonup> wav_file) \<Rightarrow> string \<Rightarrow> exn + wave_read" where
  "wave_open fs file_path =
     (case fs file_path of
        None \<Rightarrow> Inl (Exception ''wave.open'')
      | Some w \<Rightarrow> Inr \<lparr>wav = w, unread = frames w, closed = False\<rparr>)"

definition getnchannels :: "wave_read \<Rightarrow> nat" where
  "getnchannels a = nchannels (wav a)"

definition getsampwidth :: "wave_read \<Rightarrow> nat" where
  "getsampwidth a = sampwidth (wav a)"

definition getframerate :: "wave_read \<Rightarrow> nat" where
  "getframerate a = framerate (wav a)"

text \<open>
  \<^verbatim>\<open>readframes(n)\<close> returns at most \<open>n\<close> frames of \<open>nchannels * sampwidth\<close> bytes each and
  moves the read position; at the end of the data it returns the empty bytes object.
\<close>

definition readframes :: "wave_read \<Rightarrow> nat \<Rightarrow> byte list \<times> wave_read" where
  "readframes a n =
     (let k = n * (getnchannels a * getsampwidth a)
      in (take k (unread a), a\<lparr>unread := drop k (unread a)\<rparr>))"

definition close :: "wave_read \<Rightarrow> wave_read" where
  "close a = a\<lparr>closed := True\<rparr>"

subsection \<open>The Vosk recognizer\<close>

text \<open>
  \<^verbatim>\<open>KaldiRecognizer\<close> is an external collaborator with a state of its own, \<open>'s\<close>.
  \<open>rec_create\<close> is the constructor \<^verbatim>\<open>KaldiRecognizer(vosk_model, rate)\<close>;
  \<open>rec_Result\<close> and \<open>rec_FinalResult\<close> are \<^verbatim>\<open>json.loads(rec.Result())\<close> and
  \<^verbatim>\<open>json.loads(rec.FinalResult())\<close>. Each of them may raise.
\<close>

record 's recognizer =
  rec_create :: "nat \<Rightarrow> exn + 's"
  rec_AcceptWaveform :: "'s \<Rightarrow> byte list \<Rightarrow> exn + (bool \<times> 's)"
  rec_Result :: "'s \<Rightarrow> exn + (dict \<times> 's)"
  rec_FinalResult :: "'s \<Rightarrow> exn + (dict \<times> 's)"

subsection \<open>The decoding loop\<close>

text \<open>
  The \<^verbatim>\<open>while True\<close> loop of lines 100 to 106. The log has one entry per call of
  \<^verbatim>\<open>readframes\<close>: the number of frames asked for and the number of bytes returned.
  An exception of the recognizer leaves the loop with the handle as it is.
\<close>

function decode_loop ::
  "'s recognizer \<Rightarrow> wave_read \<Rightarrow> 's \<Rightarrow> string \<Rightarrow> (nat \<times> nat) list
     \<Rightarrow> (exn + string \<times> 's) \<times> wave_read \<times> (nat \<times> nat) list" where
  "decode_loop R audio s text log =
     (let data = fst (readframes audio 4000);
          audio' = snd (readframes audio 4000);
          log' = log @ [(4000, length data)]
      in if length data = 0 then (Inr (text, s), audio', log')
         else
           (case rec_AcceptWaveform R s data of
              Inl e \<Rightarrow> (Inl e, audio', log')
            | Inr (boundary, s1) \<Rightarrow>
                if boundary then
                  (case rec_Result R s1 of
                     Inl e \<Rightarrow> (Inl e, audio', log')
                   | Inr (d, s2) \<Rightarrow>
                       decode_loop R audio' s2 (text @ dict_get d ''text'' [] @ '' '') log')
                else decode_loop R audio' s1 text log'))"
  by pat_completeness auto
termination
  by (relation "measure (\<lambda>(R, audio, s, text, log). length (unread audio))")
     (auto simp: readframes_def Let_def)

declare decode_loop.simps [simp del]

definition InvalidAudioFormat :: string where
  "InvalidAudioFormat = ''Audio must be WAV mono PCM (16-bit).''"

text \<open>
  What one call of \<^verbatim>\<open>transcribe_audio\<close> leaves behind: the value returned or the
  exception raised, the audio handle (\<open>None\<close> when \<^verbatim>\<open>wave.open\<close> raised), whether
  the recognizer was constructed, and the log of the reads.
\<close>

record transcribe_run =
  outcome :: "exn + result"
  handle :: "wave_read option"
  rec_created :: bool
  reads :: "(nat \<times> nat) list"

definition transcribe_audio ::
  "(string \<rightharpoonup> wav_file) \<Rightarrow> 's recognizer \<Rightarrow> string \<Rightarrow> transcribe_run" where
  "transcribe_audio fs R file_path =
     (case wave_open fs file_path of
        Inl e \<Rightarrow> \<lparr>outcome = Inl e, handle = None, rec_created = False, reads = []\<rparr>
      | Inr audio \<Rightarrow>
          if getnchannels audio \<noteq> 1 \<or> getsampwidth audio \<noteq> 2
             \<or> \<not> (8000 \<le> getframerate audio \<and> getframerate audio \<le> 48000)
          then \<lparr>outcome = Inr (None, Some InvalidAudioFormat), handle = Some (close audio),
                rec_created = False, reads = []\<rparr>
          else
            (case rec_create R (getframerate audio) of
               Inl e \<Rightarrow> \<lparr>outcome = Inl e, handle = Some audio, rec_created = False, reads = []\<rparr>
             | Inr s \<Rightarrow>
                 (case decode_loop R audio s [] [] of
                    (Inl e, audio', log) \<Rightarrow>
                      \<lparr>outcome = Inl e, handle = Some audio', rec_created = True, reads = log\<rparr>
                  | (Inr (text, s'), audio', log) \<Rightarrow>
                      (case rec_FinalResult R s' of
                         Inl e \<Rightarrow>
                           \<lparr>outcome = Inl e, handle = Some audio', rec_created = True,
                            reads = log\<rparr>
                       | Inr (d, s'') \<Rightarrow>
                           \<lparr>outcome = Inr (Some (strip (text @ dict_get d ''text'' [])), None),
                            handle = Some (close audio'), rec_created = True,
                            reads = log\<rparr>))))"

subsection \<open>The decoding as the specification words it\<close>

text \<open>
  The specification describes the decoding on the sequence of frame batches. \<open>batches n\<close>
  cuts the data into consecutive batches of \<open>n\<close> bytes (the last one may be shorter), and
  \<open>spec_segments\<close> feeds the batches to the recognizer in order and collects the finalized
  text of every batch at which the recognizer signals an utterance boundary.
\<close>

definition batches :: "nat \<Rightarrow> 'a list \<Rightarrow> 'a list list" where
  "batches n xs = map (\<lambda>k. take n (drop (k * n) xs)) [0 ..< (length xs + n - 1) div n]"

fun spec_segments :: "'s recognizer \<Rightarrow> 's \<Rightarrow> byte list list \<Rightarrow> exn + (string list \<times> 's)" where
  "spec_segments R s [] = Inr ([], s)"
| "spec_segments R s (b # bs) =
     (case rec_AcceptWaveform R s b of
        Inl e \<Rightarrow> Inl e
      | Inr (boundary, s1) \<Rightarrow>
          if boundary then
            (case rec_Result R s1 of
               Inl e \<Rightarrow> Inl e
             | Inr (d, s2) \<Rightarrow>
                 (case spec_segments R s2 bs of
                    Inl e \<Rightarrow> Inl e
                  | Inr (segs, s3) \<Rightarrow> Inr (dict_get d ''text'' [] # segs, s3)))
          else spec_segments R s1 bs)"

subsection \<open>A scripted recognizer\<close>

text \<open>
  A recognizer that plays a script, one entry per batch: it stays silent, signals an
  utterance boundary with a finalized text, or raises as on corrupt frame data. Its state
  is the rest of the script and the text finalized last.
\<close>

datatype script_step = Silent | Boundary string | Corrupt

definition scripted :: "script_step list \<Rightarrow> string \<Rightarrow> (script_step list \<times> string) recognizer" where
  "scripted script final =
     \<lparr>rec_create = (\<lambda>rate. Inr (script, [])),
      rec_AcceptWaveform = (\<lambda>(todo, pending) data.
         (case todo of
            [] \<Rightarrow> Inr (False, ([], pending))
          | Silent # rest \<Rightarrow> Inr (False, (rest, pending))
          | Boundary t # rest \<Rightarrow> Inr (True, (rest, t))
          | Corrupt # rest \<Rightarrow> Inl (Exception ''corrupt frame data''))),
      rec_Result = (\<lambda>(todo, pending). Inr ([(''text'', pending)], (todo, []))),
      rec_FinalResult = (\<lambda>(todo, pending). Inr ([(''text'', final)], (todo, pending)))\<rparr>"

text \<open>A mono, 16-bit WAV file of \<open>n\<close> zero bytes at the given rate, stored under one path.\<close>

definition silence :: "nat \<Rightarrow> nat \<Rightarrow> wav_file" where
  "silence rate n = \<lparr>nchannels = 1, sampwidth = 2, framerate = rate, frames = replicate n 0\<rparr>"

definition one_file :: "string \<Rightarrow> wav_file \<Rightarrow> (string \<rightharpoonup> wav_file)" where
  "one_file p w = (\<lambda>q. if q = p then Some w else None)"

text \<open>
  Two files for concrete runs: twenty thousand bytes of silence at 16 kHz (three reads of
  data: 8000, 8000 and 4000 bytes), and a stereo file at 44.1 kHz.
\<close>

definition clip :: wav_file where
  "clip = silence 16000 20000"

definition clip_fs :: "string \<rightharpoonup> wav_file" where
  "clip_fs = one_file ''clip.wav'' clip"

definition stereo :: wav_file where
  "stereo = \<lparr>nchannels = 2, sampwidth = 2, framerate = 44100, frames = replicate 8 0\<rparr>"

section \<open>Chunking\<close>

lemma py_range_length: "0 < step \<Longrightarrow> length (py_range 0 n step) = (n + step - 1) div step"
  by (simp add: py_range_def)

lemma chunks_of_length: "length (chunks_of p) = (length p + 1199) div 1200"
  by (simp add: chunks_of_def py_range_def max_chars_def)

lemma chunks_of_nth:
  "k < length (chunks_of p) \<Longrightarrow> chunks_of p ! k = take 1200 (drop (1200 * k) p)"
  by (simp add: chunks_of_def py_range_def max_chars_def slice_def mult.commute)


lemma concat_slices: "concat (map (\<lambda>k. take n (drop (k * n) p)) [0 ..< m]) = take (m * n) p"
proof (induction m)
  case 0
  show ?case by simp
next
  case (Suc m)
  have "take (m * n) p @ take n (drop (m * n) p) = take (m * n + n) p"
    by (simp add: take_add)
  with Suc show ?case by (simp add: add.commute)
qed

lemma chunks_of_eq: "chunks_of p = map (\<lambda>k. take 1200 (drop (k * 1200) p)) [0 ..< (length p + 1199) div 1200]"
  by (simp add: chunks_of_def py_range_def max_chars_def slice_def comp_def add.commute)

lemma concat_chunks_of: "concat (chunks_of p) = p"
proof -
  have "length p \<le> (length p + 1199) div 1200 * 1200" by arith
  then show ?thesis by (simp add: chunks_of_eq concat_slices)
qed

lemma chunks_of_bound: "c \<in> set (chunks_of p) \<Longrightarrow> length c \<le> 1200"
  by (auto simp: chunks_of_eq)

lemma chunks_of_prefix: "k \<le> length (chunks_of p) \<Longrightarrow> concat (take k (chunks_of p)) = take (k * 1200) p"
  by (simp add: chunks_of_eq take_map concat_slices chunks_of_length)


lemma take_min_drop: "take (min (length p - i) n) (drop i p) = take n (drop i p)"
  by (cases "length p - i \<le> n") (simp_all add: min_def)

section \<open>Whitespace\<close>

lemma strip_Nil_iff: "strip s = [] \<longleftrightarrow> (\<forall>c \<in> set s. isspace c)"
proof
  assume "strip s = []"
  then have all: "\<forall>c \<in> set (dropWhile isspace s). isspace c"
    by (simp add: strip_def rstrip_def lstrip_def dropWhile_eq_Nil_conv)
  have "dropWhile isspace s = []"
  proof (rule ccontr)
    assume ne: "dropWhile isspace s \<noteq> []"
    then have "\<not> isspace (hd (dropWhile isspace s))" by (rule hd_dropWhile)
    moreover from ne have "hd (dropWhile isspace s) \<in> set (dropWhile isspace s)" by simp
    ultimately show False using all by blast
  qed
  then show "\<forall>c \<in> set s. isspace c" by (simp add: dropWhile_eq_Nil_conv)
next
  assume "\<forall>c \<in> set s. isspace c"
  then have d: "dropWhile isspace s = []" by (simp add: dropWhile_eq_Nil_conv)
  show "strip s = []" by (simp add: strip_def rstrip_def lstrip_def d)
qed


lemma rev_dropWhile_takeWhile:
  "rev (dropWhile P (rev xs)) @ rev (takeWhile P (rev xs)) = xs"
proof -
  have "rev (takeWhile P (rev xs) @ dropWhile P (rev xs)) = rev (rev xs)"
    by (simp only: takeWhile_dropWhile_id)
  then show ?thesis by (simp only: rev_append rev_rev_ident)
qed

lemma strip_decomp:
  "\<exists>lead trail. s = lead @ strip s @ trail
     \<and> (\<forall>c \<in> set lead. isspace c) \<and> (\<forall>c \<in> set trail. isspace c)"
proof -
  define d where "d = dropWhile isspace s"
  define trail where "trail = rev (takeWhile isspace (rev d))"
  have s: "s = takeWhile isspace s @ d" by (simp add: d_def)
  have d: "d = strip s @ trail"
    using rev_dropWhile_takeWhile [of isspace d]
    by (simp add: strip_def rstrip_def lstrip_def d_def trail_def)
  have a: "\<forall>c \<in> set (takeWhile isspace s). isspace c" by (auto dest: set_takeWhileD)
  have b: "\<forall>c \<in> set trail. isspace c" by (auto simp: trail_def dest: set_takeWhileD)
  from s d have "s = takeWhile isspace s @ strip s @ trail" by simp
  with a b show ?thesis by blast
qed

lemma strip_ends:
  "strip s = [] \<or> (\<not> isspace (hd (strip s)) \<and> \<not> isspace (last (strip s)))"
proof (cases "strip s = []")
  case True
  then show ?thesis by simp
next
  case False
  define d where "d = dropWhile isspace s"
  define r where "r = dropWhile isspace (rev d)"
  have t: "strip s = rev r" by (simp add: strip_def rstrip_def lstrip_def d_def r_def)
  with False have rne: "r \<noteq> []" by simp
  then have "\<not> isspace (hd r)" unfolding r_def by (rule hd_dropWhile)
  with rne have l: "\<not> isspace (last (strip s))" by (simp add: t last_rev)
  have dd: "d = rev r @ rev (takeWhile isspace (rev d))"
    using rev_dropWhile_takeWhile [of isspace d] by (simp add: r_def)
  with rne have dne: "d \<noteq> []" by auto
  then have "\<not> isspace (hd d)" unfolding d_def by (rule hd_dropWhile)
  moreover from dd rne have "hd d = hd (rev r)" by (metis hd_append2 rev_is_Nil_conv)
  ultimately have "\<not> isspace (hd (strip s))" by (simp add: t)
  with l show ?thesis by simp
qed


lemma strip_trimmed: "trimmed s (strip s)"
  unfolding trimmed_def using strip_decomp [of s] strip_ends [of s] by blast


section \<open>The loop over the chunks\<close>


lemma summarize_chunks_expected:
  "\<forall>k \<in> set (expected_calls M g cs). \<not> isl (summary_text (response k)) \<Longrightarrow>
   summarize_chunks M cs sums g calls =
     (Inr (sums @ map call_text (expected_calls M g cs)),
      fold (\<lambda>c h. snd (M h c 160 60 False)) cs g,
      calls @ expected_calls M g cs)"
proof (induction cs arbitrary: sums g calls)
  case Nil
  show ?case by simp
next
  case (Cons c cs)
  obtain a g1 where M: "M g c 160 60 False = (a, g1)" by (cases "M g c 160 60 False")
  from Cons.prems M have "\<not> isl (summary_text a)" by simp
  then obtain s where s: "summary_text a = Inr s" by (cases "summary_text a") auto
  from Cons.prems M have rest: "\<forall>k \<in> set (expected_calls M g1 cs). \<not> isl (summary_text (response k))"
    by simp
  from Cons.IH [OF rest] M s show ?case by (simp add: call_text_def)
qed

lemma expected_calls_chunks: "map chunk (expected_calls M g cs) = cs"
  by (induction cs arbitrary: g) simp_all

lemma expected_calls_configured: "k \<in> set (expected_calls M g cs) \<Longrightarrow> as_configured k"
  by (induction cs arbitrary: g) (auto simp: as_configured_def)


lemma join_butlast:
  "xs \<noteq> [] \<Longrightarrow> join sep xs = concat (map (\<lambda>x. x @ sep) (butlast xs)) @ last xs"
  by (induction sep xs rule: join.induct) simp_all


section \<open>Frame batches\<close>

lemma batches_Nil: "batches n [] = []"
  by (cases n) (simp_all add: batches_def)

lemma batches_count:
  assumes "0 < n" "0 < (l::nat)"
  shows "(l + n - 1) div n = Suc ((l - n + n - 1) div n)"
proof (cases "n \<le> l")
  case True
  then have "l + n - 1 = (l - n + n - 1) + n" using assms by arith
  then have "(l + n - 1) div n = ((l - n + n - 1) + n) div n" by (rule arg_cong)
  also have "\<dots> = Suc ((l - n + n - 1) div n)"
    using assms(1) by (simp only: div_add_self2 Suc_eq_plus1)
  finally show ?thesis .
next
  case False
  then have b: "l - n + n - 1 < n" "n \<le> l + n - 1" "l + n - 1 < n + n" using assms by arith+
  from b(1) have z: "(l - n + n - 1) div n = 0" by (rule div_less)
  from b(2,3) have "(l + n - 1) div n = 1"
    by (intro div_nat_eqI) simp_all
  with z show ?thesis by (simp only: One_nat_def)
qed

lemma batches_Cons:
  assumes "0 < n" "xs \<noteq> []"
  shows "batches n xs = take n xs # batches n (drop n xs)"
proof -
  define m where "m = (length xs - n + n - 1) div n"
  from assms have "(length xs + n - 1) div n = Suc m"
    unfolding m_def by (intro batches_count) simp_all
  then have "batches n xs = map (\<lambda>k. take n (drop (k * n) xs)) [0 ..< Suc m]"
    by (simp add: batches_def)
  also have "[0 ..< Suc m] = 0 # map Suc [0 ..< m]"
    by (metis map_Suc_upt upt_conv_Cons zero_less_Suc)
  also have "map (\<lambda>k. take n (drop (k * n) xs)) (0 # map Suc [0 ..< m])
      = take n xs # map (\<lambda>k. take n (drop (k * n) (drop n xs))) [0 ..< m]"
    by (simp add: comp_def add.commute)
  also have "map (\<lambda>k. take n (drop (k * n) (drop n xs))) [0 ..< m] = batches n (drop n xs)"
    by (simp add: batches_def m_def)
  finally show ?thesis .
qed

section \<open>Short prompts and chunk counts\<close>

lemma prompt_of_length: "length (prompt_of t) = length t + 196"
  by (simp add: prompt_of_def)




lemma ceil_div_bounds:
  "0 < (n::nat) \<Longrightarrow> 1200 * ((n + 1199) div 1200 - 1) < n \<and> n \<le> 1200 * ((n + 1199) div 1200)"
  by arith


section \<open>The decoding loop and the batches\<close>

lemma readframes_valid:
  "getnchannels a = 1 \<Longrightarrow> getsampwidth a = 2 \<Longrightarrow>
   readframes a 4000 = (take 8000 (unread a), a\<lparr>unread := drop 8000 (unread a)\<rparr>)"
  by (simp add: readframes_def)

lemma decode_loop_segments:
  "getnchannels a = 1 \<Longrightarrow> getsampwidth a = 2 \<Longrightarrow>
   spec_segments R s (batches 8000 (unread a)) = Inr (segs, s') \<Longrightarrow>
   decode_loop R a s text log =
     (Inr (text @ concat (map (\<lambda>p. p @ '' '') segs), s'),
      a\<lparr>unread := []\<rparr>,
      log @ map (\<lambda>b. (4000, length b)) (batches 8000 (unread a)) @ [(4000, 0)])"
proof (induction R a s "text" log arbitrary: segs rule: decode_loop.induct)
  case (1 R audio s tx log)
  note rf = readframes_valid[OF "1.prems"(1,2)]
  show ?case
  proof (cases "unread audio = []")
    case True
    with "1.prems" rf show ?thesis
      by (subst decode_loop.simps) (simp add: batches_Nil)
  next
    case False
    define data where "data = take 8000 (unread audio)"
    define audio' where "audio' = audio\<lparr>unread := drop 8000 (unread audio)\<rparr>"
    define log' where "log' = log @ [(4000, length data)]"
    have bs: "batches 8000 (unread audio) = data # batches 8000 (unread audio')"
      using False by (simp add: batches_Cons data_def audio'_def)
    have ne: "length data \<noteq> 0" using False by (simp add: data_def)
    have fr: "fst (readframes audio 4000) = data" "snd (readframes audio 4000) = audio'"
      by (simp_all add: rf data_def audio'_def)
    have v': "getnchannels audio' = 1" "getsampwidth audio' = 2"
      using "1.prems"(1,2) by (simp_all add: audio'_def getnchannels_def getsampwidth_def)
    have fin: "audio'\<lparr>unread := []\<rparr> = audio\<lparr>unread := []\<rparr>" by (simp add: audio'_def)
    from "1.prems"(3) bs obtain boundary s1 where acc: "rec_AcceptWaveform R s data = Inr (boundary, s1)"
      by (cases "rec_AcceptWaveform R s data") (auto split: prod.splits)
    show ?thesis
    proof (cases boundary)
      case True
      from "1.prems"(3) bs acc True obtain d s2 where res: "rec_Result R s1 = Inr (d, s2)"
        by (cases "rec_Result R s1") auto
      from "1.prems"(3) bs acc True res obtain segs' where
        sg: "spec_segments R s2 (batches 8000 (unread audio')) = Inr (segs', s')"
        and segs: "segs = dict_get d ''text'' [] # segs'"
        by (auto split: sum.splits)
      have step: "decode_loop R audio s tx log =
          decode_loop R audio' s2 (tx @ dict_get d ''text'' [] @ '' '') log'"
        using ne acc True res
        by (subst decode_loop.simps) (simp add: fr log'_def)
      have "decode_loop R audio' s2 (tx @ dict_get d ''text'' [] @ '' '') log' =
         (Inr ((tx @ dict_get d ''text'' [] @ '' '') @ concat (map (\<lambda>p. p @ '' '') segs'), s'),
          audio'\<lparr>unread := []\<rparr>,
          log' @ map (\<lambda>b. (4000, length b)) (batches 8000 (unread audio')) @ [(4000, 0)])"
        by (rule "1.IH"(1) [OF fr(1) [symmetric] fr(2) [symmetric] log'_def ne acc refl True res refl v' sg])
      then show ?thesis
        by (simp add: step segs bs fin log'_def)
    next
      case False
      from "1.prems"(3) bs acc False have
        sg: "spec_segments R s1 (batches 8000 (unread audio')) = Inr (segs, s')"
        by simp
      have step: "decode_loop R audio s tx log = decode_loop R audio' s1 tx log'"
        using ne acc False
        by (subst decode_loop.simps) (simp add: fr log'_def)
      have "decode_loop R audio' s1 tx log' =
         (Inr (tx @ concat (map (\<lambda>p. p @ '' '') segs), s'),
          audio'\<lparr>unread := []\<rparr>,
          log' @ map (\<lambda>b. (4000, length b)) (batches 8000 (unread audio')) @ [(4000, 0)])"
        by (rule "1.IH"(2) [OF fr(1) [symmetric] fr(2) [symmetric] log'_def ne acc refl False v' sg])
      then show ?thesis
        by (simp add: step bs fin log'_def)
    qed
  qed
qed

lemma decode_loop_raises:
  "getnchannels a = 1 \<Longrightarrow> getsampwidth a = 2 \<Longrightarrow>
   spec_segments R s (batches 8000 (unread a)) = Inl e \<Longrightarrow>
   fst (decode_loop R a s tx log) = Inl e
   \<and> closed (fst (snd (decode_loop R a s tx log))) = closed a"
proof (induction R a s tx log rule: decode_loop.induct)
  case (1 R audio s tx log)
  note rf = readframes_valid[OF "1.prems"(1,2)]
  show ?case
  proof (cases "unread audio = []")
    case True
    with "1.prems" show ?thesis by (simp add: batches_Nil)
  next
    case False
    define data where "data = take 8000 (unread audio)"
    define audio' where "audio' = audio\<lparr>unread := drop 8000 (unread audio)\<rparr>"
    define log' where "log' = log @ [(4000, length data)]"
    have bs: "batches 8000 (unread audio) = data # batches 8000 (unread audio')"
      using False by (simp add: batches_Cons data_def audio'_def)
    have ne: "length data \<noteq> 0" using False by (simp add: data_def)
    have fr: "fst (readframes audio 4000) = data" "snd (readframes audio 4000) = audio'"
      by (simp_all add: rf data_def audio'_def)
    have v': "getnchannels audio' = 1" "getsampwidth audio' = 2"
      using "1.prems"(1,2) by (simp_all add: audio'_def getnchannels_def getsampwidth_def)
    have cl: "closed audio' = closed audio" by (simp add: audio'_def)
    show ?thesis
    proof (cases "rec_AcceptWaveform R s data")
      case (Inl e')
      with "1.prems"(3) bs have "e' = e" by simp
      with Inl ne cl show ?thesis
        by (subst (1 2) decode_loop.simps) (simp add: fr)
    next
      case (Inr b)
      obtain boundary s1 where b: "b = (boundary, s1)" by (cases b)
      note acc = Inr [unfolded b]
      show ?thesis
      proof (cases boundary)
        case True
        show ?thesis
        proof (cases "rec_Result R s1")
          case (Inl e')
          with "1.prems"(3) bs acc True have "e' = e" by simp
          with Inl acc True ne cl show ?thesis
            by (subst (1 2) decode_loop.simps) (simp add: fr)
        next
          case (Inr c)
          obtain d s2 where c: "c = (d, s2)" by (cases c)
          note res = Inr [unfolded c]
          from "1.prems"(3) bs acc True res have
            sg: "spec_segments R s2 (batches 8000 (unread audio')) = Inl e"
            by (auto split: sum.splits)
          have step: "decode_loop R audio s tx log =
              decode_loop R audio' s2 (tx @ dict_get d ''text'' [] @ '' '') log'"
            using ne acc True res
            by (subst decode_loop.simps) (simp add: fr log'_def)
          from "1.IH"(1) [OF fr(1) [symmetric] fr(2) [symmetric] log'_def ne acc refl True res refl v' sg]
          show ?thesis by (simp add: step cl)
        qed
      next
        case False
        from "1.prems"(3) bs acc False have
          sg: "spec_segments R s1 (batches 8000 (unread audio')) = Inl e"
          by simp
        have step: "decode_loop R audio s tx log = decode_loop R audio' s1 tx log'"
          using ne acc False
          by (subst decode_loop.simps) (simp add: fr log'_def)
        from "1.IH"(2) [OF fr(1) [symmetric] fr(2) [symmetric] log'_def ne acc refl False v' sg]
        show ?thesis by (simp add: step cl)
      qed
    qed
  qed
qed


lemma wave_open_Some:
  "fs p = Some w \<Longrightarrow> wave_open fs p = Inr \<lparr>wav = w, unread = frames w, closed = False\<rparr>"
  by (simp add: wave_open_def)


lemma transcribe_audio_returns:
  assumes "fs file_path = Some w"
    and "nchannels w = 1" and "sampwidth w = 2"
    and "8000 \<le> framerate w" and "framerate w \<le> 48000"
    and "rec_create R (framerate w) = Inr s0"
    and "spec_segments R s0 (batches (4000 * 2) (frames w)) = Inr (segs, s1)"
    and "rec_FinalResult R s1 = Inr (d, s2)"
  shows "transcribe_audio fs R file_path =
           \<lparr>outcome = Inr (Some (strip (concat (map (\<lambda>p. p @ '' '') segs)
                                         @ dict_get d ''text'' [])), None),
            handle = Some \<lparr>wav = w, unread = [], closed = True\<rparr>,
            rec_created = True,
            reads = map (\<lambda>b. (4000, length b)) (batches (4000 * 2) (frames w)) @ [(4000, 0)]\<rparr>"
proof -
  let ?a = "\<lparr>wav = w, unread = frames w, closed = False\<rparr>"
  have v: "getnchannels ?a = 1" "getsampwidth ?a = 2"
    using assms(2,3) by (simp_all add: getnchannels_def getsampwidth_def)
  from assms(7) have sg: "spec_segments R s0 (batches 8000 (unread ?a)) = Inr (segs, s1)"
    by simp
  note loop = decode_loop_segments [OF v sg, of "[]" "[]"]
  show ?thesis
    using assms(1-6,8)
    by (simp add: transcribe_audio_def wave_open_Some getnchannels_def getsampwidth_def
        getframerate_def close_def loop)
qed


lemma transcribe_audio_raises:
  assumes "fs file_path = Some w"
    and "nchannels w = 1" and "sampwidth w = 2"
    and "8000 \<le> framerate w" and "framerate w \<le> 48000"
    and "rec_create R (framerate w) = Inr s0"
    and "spec_segments R s0 (batches (4000 * 2) (frames w)) = Inl e"
  shows "outcome (transcribe_audio fs R file_path) = Inl e
       \<and> map_option closed (handle (transcribe_audio fs R file_path)) = Some False
       \<and> rec_created (transcribe_audio fs R file_path)"
proof -
  let ?a = "\<lparr>wav = w, unread = frames w, closed = False\<rparr>"
  have v: "getnchannels ?a = 1" "getsampwidth ?a = 2"
    using assms(2,3) by (simp_all add: getnchannels_def getsampwidth_def)
  from assms(7) have sg: "spec_segments R s0 (batches 8000 (unread ?a)) = Inl e"
    by simp
  from decode_loop_raises [OF v sg, of "[]" "[]"]
  obtain a' log' where "decode_loop R ?a s0 [] [] = (Inl e, a', log')" "closed a' = False"
    by (cases "decode_loop R ?a s0 [] []") auto
  then show ?thesis
    using assms(1-6)
    by (simp add: transcribe_audio_def wave_open_Some getnchannels_def getsampwidth_def
        getframerate_def)
qed



section \<open>Concrete runs of the transcriber\<close>

lemma clip_fields:
  "clip_fs ''clip.wav'' = Some clip" "nchannels clip = 1" "sampwidth clip = 2"
  "8000 \<le> framerate clip" "framerate clip \<le> 48000"
  by (simp_all add: clip_fs_def one_file_def clip_def silence_def)

lemma clip_batches:
  "batches 8000 (frames clip) = [replicate 8000 0, replicate 8000 0, replicate 4000 0]"
  by (simp add: clip_def silence_def batches_def upt_conv_Cons)

lemma scripted_create: "rec_create (scripted script final) rate = Inr (script, [])"
  by (simp add: scripted_def)

lemma scripted_final:
  "rec_FinalResult (scripted script final) (todo, pending) = Inr ([(''text'', final)], (todo, pending))"
  by (simp add: scripted_def)

lemma scripted_accept:
  "rec_AcceptWaveform (scripted script final) (todo, pending) data =
     (case todo of
        [] \<Rightarrow> Inr (False, ([], pending))
      | Silent # rest \<Rightarrow> Inr (False, (rest, pending))
      | Boundary t # rest \<Rightarrow> Inr (True, (rest, t))
      | Corrupt # rest \<Rightarrow> Inl (Exception ''corrupt frame data''))"
  by (simp add: scripted_def)

lemma scripted_result:
  "rec_Result (scripted script final) (todo, pending) = Inr ([(''text'', pending)], (todo, []))"
  by (simp add: scripted_def)

lemma segments_corrupt_second: "spec_segments (scripted [Boundary ''hello'', Corrupt] ''bye'')
        ([Boundary ''hello'', Corrupt], [])
        (batches (4000 * 2) (frames clip)) = Inl (Exception ''corrupt frame data'')"
  by (simp add: clip_batches scripted_accept scripted_result dict_get_def)


lemma segments_padded:
  "spec_segments (scripted [Boundary [], Boundary ''hello world'', Silent] [])
     ([Boundary [], Boundary ''hello world'', Silent], [])
     (batches (4000 * 2) (frames clip)) = Inr ([[], ''hello world''], ([], []))"
  by (simp add: clip_batches scripted_accept scripted_result dict_get_def)

lemma segments_corrupt_first: "spec_segments (scripted [Corrupt] ''bye'') ([Corrupt], [])
        (batches (4000 * 2) (frames clip)) = Inl (Exception ''corrupt frame data'')"
  by (simp add: clip_batches scripted_accept scripted_result dict_get_def)

lemma segments_empty_boundary: "spec_segments (scripted [Boundary ''hello'', Boundary [], Silent] ''world'')
        ([Boundary ''hello'', Boundary [], Silent], [])
        (batches (4000 * 2) (frames clip)) = Inr ([''hello'', []], ([], []))"
  by (simp add: clip_batches scripted_accept scripted_result dict_get_def)

section \<open>Runs of the summarizer\<close>



lemma strip_as: "strip (replicate 1200 (CHR ''a'')) \<noteq> []"
  by (simp add: strip_Nil_iff isspace_def)




lemma summarize_chunks_deterministic:
  "deterministic_without_sampling M \<Longrightarrow>
   fst (summarize_chunks M cs sums g calls) = fst (summarize_chunks M cs sums g' calls')"
proof (induction cs arbitrary: sums g g' calls calls')
  case Nil
  show ?case by simp
next
  case (Cons c cs)
  obtain a g1 where M1: "M g c 160 60 False = (a, g1)" by (cases "M g c 160 60 False")
  obtain b g2 where M2: "M g' c 160 60 False = (b, g2)" by (cases "M g' c 160 60 False")
  from Cons.prems have "fst (M g c 160 60 False) = fst (M g' c 160 60 False)"
    unfolding deterministic_without_sampling_def by blast
  with M1 M2 have ab: "b = a" by simp
  show ?case
  proof (cases "summary_text a")
    case (Inl e)
    with M1 M2 ab show ?thesis by simp
  next
    case (Inr s)
    with M1 M2 ab Cons.IH [OF Cons.prems] show ?thesis by simp
  qed
qed


lemma two_chunks:
  "chunks_of (prompt_of (replicate 1200 (CHR ''a''))) =
     [take 1200 (prompt_of (replicate 1200 (CHR ''a''))),
      drop 1200 (prompt_of (replicate 1200 (CHR ''a'')))]"
  by (simp add: chunks_of_eq prompt_of_length upt_conv_Cons)

lemma first_chunk_head: "take 4 (prompt_of t) = ''\<newline>You''"
  by (simp add: prompt_of_def)

lemma replicate_four: "replicate 4 c = [c, c, c, c]"
  by (simp add: eval_nat_numeral)

lemma second_chunk_head: "take 4 (drop 1200 (prompt_of (replicate 1200 (CHR ''a'')))) = ''aaaa''"
  by (simp add: prompt_of_def replicate_four)

lemma padded_calls:
  "expected_calls padded_model 0 (chunks_of (prompt_of (replicate 1200 (CHR ''a'')))) =
     [\<lparr>chunk = take 1200 (prompt_of (replicate 1200 (CHR ''a''))),
       max_length = 160, min_length = 60, do_sample = False,
       response = Inr [[(''summary_text'', ''  \<newline>You'')]]\<rparr>,
      \<lparr>chunk = drop 1200 (prompt_of (replicate 1200 (CHR ''a''))),
       max_length = 160, min_length = 60, do_sample = False,
       response = Inr [[(''summary_text'', ''aaaa  '')]]\<rparr>]"
  by (simp add: two_chunks padded_model_def first_chunk_head second_chunk_head)


section \<open>Claims about chunking\<close>

text \<open>
  C5. Chunking is a total partition of the prompt, for a prompt of any length: the chunks
  concatenated in order give the prompt back, every chunk has at most 1200 characters,
  and chunk \<open>k\<close> is the slice of the prompt that starts where the chunks before it end
  (contiguous, no overlap, no gap).
\<close>

theorem chunks_partition:
  "concat (chunks_of p) = p
   \<and> (\<forall>c \<in> set (chunks_of p). length c \<le> 1200)
   \<and> (\<forall>k < length (chunks_of p).
         chunks_of p ! k =
           take (length (chunks_of p ! k)) (drop (length (concat (take k (chunks_of p)))) p))"
proof (intro conjI allI impI ballI)
  show "concat (chunks_of p) = p" by (rule concat_chunks_of)
next
  fix c assume "c \<in> set (chunks_of p)"
  then show "length c \<le> 1200" by (rule chunks_of_bound)
next
  fix k assume k: "k < length (chunks_of p)"
  then have pre: "concat (take k (chunks_of p)) = take (k * 1200) p"
    by (simp add: chunks_of_prefix)
  from k have "k * 1200 < length p" by (simp add: chunks_of_length)
  then have len: "length (concat (take k (chunks_of p))) = k * 1200"
    by (simp add: pre)
  from k have nth: "chunks_of p ! k = take 1200 (drop (k * 1200) p)"
    by (simp add: chunks_of_nth mult.commute)
  show "chunks_of p ! k =
           take (length (chunks_of p ! k)) (drop (length (concat (take k (chunks_of p)))) p)"
    by (simp add: len nth take_min_drop)
qed

theorem chunks_partition_witness:
  "1 < length (chunks_of (replicate 2400 (CHR ''a'')))
   \<and> chunks_of (replicate 2400 (CHR ''a'')) ! 1 \<in> set (chunks_of (replicate 2400 (CHR ''a'')))
   \<and> concat (chunks_of (replicate 2400 (CHR ''a''))) = replicate 2400 (CHR ''a'')
   \<and> length (chunks_of (replicate 2400 (CHR ''a'')) ! 1) \<le> 1200
   \<and> chunks_of (replicate 2400 (CHR ''a'')) ! 1 =
         take (length (chunks_of (replicate 2400 (CHR ''a'')) ! 1))
           (drop (length (concat (take 1 (chunks_of (replicate 2400 (CHR ''a''))))))
              (replicate 2400 (CHR ''a'')))"
proof -
  have k: "1 < length (chunks_of (replicate 2400 (CHR ''a'')))"
    by (simp add: chunks_of_length)
  then have m: "chunks_of (replicate 2400 (CHR ''a'')) ! 1
      \<in> set (chunks_of (replicate 2400 (CHR ''a'')))"
    by (rule nth_mem)
  from chunks_partition [of "replicate 2400 (CHR ''a'')"] k m show ?thesis
    by blast
qed

section \<open>Claims about the summarizer\<close>

text \<open>
  C7. For every transcript that is empty or consists only of whitespace,
  \<open>summarize_text_offline\<close> returns the pair \<open>(None, EmptyTranscript)\<close> at once: the
  model is not called (the log of calls is empty) and its hidden state is untouched.
\<close>

theorem summarize_blank:
  assumes "\<forall>c \<in> set text. isspace c"
  shows "summarize_text_offline M g text =
           \<lparr>sum_outcome = Inr (None, Some EmptyTranscript), sum_gen = g, sum_calls = []\<rparr>"
proof -
  from assms have "strip text = []" by (simp add: strip_Nil_iff)
  then show ?thesis by (simp add: summarize_text_offline_def)
qed

theorem summarize_blank_witness:
  "summarize_text_offline sampling_model 0 '''' =
     \<lparr>sum_outcome = Inr (None, Some EmptyTranscript), sum_gen = 0, sum_calls = []\<rparr>
   \<and> summarize_text_offline sampling_model 0 ''   '' =
     \<lparr>sum_outcome = Inr (None, Some EmptyTranscript), sum_gen = 0, sum_calls = []\<rparr>"
  using summarize_blank [of "''''" sampling_model 0] summarize_blank [of "''   ''" sampling_model 0]
  by (simp add: isspace_def)

text \<open>
  C6. For every transcript that is not empty after trimming, and every model that answers
  the calls of this run, the calls the summarizer makes are exactly the expected ones: one
  per chunk of the prompt, in chunk order, with the generation parameters of the code and
  the answer of the model itself, the hidden state passed on from call to call. Their
  number is the ceiling of the prompt length divided by 1200 (written with \<open>div\<close>, and
  pinned down by the two bounds). The value returned is the texts of the answers in call
  order with a single space between neighbours, trimmed: no whitespace is left at either
  end, and only whitespace was removed.
\<close>

theorem summarize_feeds_chunks_in_order:
  assumes "strip text \<noteq> []"
    and "\<forall>k \<in> set (expected_calls M g (chunks_of (prompt_of text))).
           \<not> isl (summary_text (response k))"
  shows "sum_calls (summarize_text_offline M g text)
           = expected_calls M g (chunks_of (prompt_of text))
       \<and> map chunk (sum_calls (summarize_text_offline M g text)) = chunks_of (prompt_of text)
       \<and> (\<forall>k \<in> set (sum_calls (summarize_text_offline M g text)). as_configured k)
       \<and> length (sum_calls (summarize_text_offline M g text))
           = (length (prompt_of text) + 1199) div 1200
       \<and> 1200 * (length (sum_calls (summarize_text_offline M g text)) - 1)
           < length (prompt_of text)
       \<and> length (prompt_of text)
           \<le> 1200 * length (sum_calls (summarize_text_offline M g text))
       \<and> sum_gen (summarize_text_offline M g text)
           = fold (\<lambda>c h. snd (M h c 160 60 False)) (chunks_of (prompt_of text)) g
       \<and> sum_outcome (summarize_text_offline M g text) =
           Inr (Some (strip
                  (concat (map (\<lambda>k. call_text k @ '' '')
                             (butlast (sum_calls (summarize_text_offline M g text))))
                   @ call_text (last (sum_calls (summarize_text_offline M g text))))), None)
       \<and> trimmed
           (concat (map (\<lambda>k. call_text k @ '' '')
                      (butlast (sum_calls (summarize_text_offline M g text))))
            @ call_text (last (sum_calls (summarize_text_offline M g text))))
           (strip
              (concat (map (\<lambda>k. call_text k @ '' '')
                         (butlast (sum_calls (summarize_text_offline M g text))))
               @ call_text (last (sum_calls (summarize_text_offline M g text)))))"
proof -
  define cs where "cs = chunks_of (prompt_of text)"
  define ks where "ks = expected_calls M g cs"
  from assms(1) have ne: "text \<noteq> []" by (auto simp: strip_def lstrip_def rstrip_def)
  have run: "summarize_chunks M cs [] g [] =
      (Inr (map call_text ks), fold (\<lambda>c h. snd (M h c 160 60 False)) cs g, ks)"
    using summarize_chunks_expected [of M g cs "[]" "[]"] assms(2)
    by (simp add: cs_def ks_def)
  have eq: "summarize_text_offline M g text =
      \<lparr>sum_outcome = Inr (Some (strip (join '' '' (map call_text ks))), None),
       sum_gen = fold (\<lambda>c h. snd (M h c 160 60 False)) cs g, sum_calls = ks\<rparr>"
    using assms(1) ne run by (simp add: summarize_text_offline_def cs_def)
  have len: "length ks = (length (prompt_of text) + 1199) div 1200"
    using expected_calls_chunks [of M g cs, THEN arg_cong, of length]
    by (simp add: ks_def cs_def chunks_of_length)
  have pos: "0 < length (prompt_of text)" by (simp add: prompt_of_length)
  have kne: "ks \<noteq> []" using len ceil_div_bounds [OF pos] by auto
  have jn: "join '' '' (map call_text ks)
      = concat (map (\<lambda>k. call_text k @ '' '') (butlast ks)) @ call_text (last ks)"
    using kne by (simp add: join_butlast map_butlast [symmetric] last_map comp_def)
  show ?thesis
    unfolding eq
    using ceil_div_bounds [OF pos] len expected_calls_chunks [of M g cs]
      expected_calls_configured [of _ M g cs] strip_trimmed
    by (simp add: jn ks_def [symmetric] cs_def [symmetric])
qed


text \<open>
  A run with two chunks, answers that depend on the hidden state, and whitespace to trim at
  both ends.
\<close>

theorem summarize_feeds_chunks_in_order_witness:
  "sum_calls (summarize_text_offline padded_model 0 (replicate 1200 (CHR ''a''))) =
     [\<lparr>chunk = take 1200 (prompt_of (replicate 1200 (CHR ''a''))),
       max_length = 160, min_length = 60, do_sample = False,
       response = Inr [[(''summary_text'', ''  \<newline>You'')]]\<rparr>,
      \<lparr>chunk = drop 1200 (prompt_of (replicate 1200 (CHR ''a''))),
       max_length = 160, min_length = 60, do_sample = False,
       response = Inr [[(''summary_text'', ''aaaa  '')]]\<rparr>]
   \<and> sum_gen (summarize_text_offline padded_model 0 (replicate 1200 (CHR ''a''))) = 2
   \<and> sum_outcome (summarize_text_offline padded_model 0 (replicate 1200 (CHR ''a'')))
       = Inr (Some ''You aaaa'', None)"
proof -
  have a: "strip (replicate 1200 (CHR ''a'')) \<noteq> []" by (rule strip_as)
  have b: "\<forall>k \<in> set (expected_calls padded_model 0
             (chunks_of (prompt_of (replicate 1200 (CHR ''a''))))).
           \<not> isl (summary_text (response k))"
    by (simp add: padded_calls summary_text_def)
  have c: "strip ''  \<newline>You aaaa  '' = ''You aaaa''"
    by (simp add: strip_def lstrip_def rstrip_def isspace_def)
  note run = summarize_feeds_chunks_in_order [OF a b]
  from run have calls:
    "sum_calls (summarize_text_offline padded_model 0 (replicate 1200 (CHR ''a''))) =
       expected_calls padded_model 0 (chunks_of (prompt_of (replicate 1200 (CHR ''a''))))"
    by (rule conjunct1)
  from run have gen:
    "sum_gen (summarize_text_offline padded_model 0 (replicate 1200 (CHR ''a''))) =
       fold (\<lambda>c h. snd (padded_model h c 160 60 False))
         (chunks_of (prompt_of (replicate 1200 (CHR ''a'')))) 0"
    by blast
  from run have out:
    "sum_outcome (summarize_text_offline padded_model 0 (replicate 1200 (CHR ''a''))) =
       Inr (Some (strip
              (concat (map (\<lambda>k. call_text k @ '' '')
                 (butlast (sum_calls
                    (summarize_text_offline padded_model 0 (replicate 1200 (CHR ''a''))))))
               @ call_text (last (sum_calls
                    (summarize_text_offline padded_model 0 (replicate 1200 (CHR ''a''))))))),
            None)"
    by blast
  have g2: "fold (\<lambda>c h. snd (padded_model h c 160 60 False))
         (chunks_of (prompt_of (replicate 1200 (CHR ''a'')))) 0 = 2"
    by (simp add: two_chunks padded_model_def)
  show ?thesis
    unfolding out gen g2 calls padded_calls
    by (simp add: call_text_def summary_text_def c)
qed





text \<open>
  C9. Determinism: for a model whose answer without sampling does not depend on its hidden
  state, two calls of the summarizer on the same transcript give the same outcome,
  whatever the hidden state at the start of each call; in particular a second call that
  starts in the state the first one left. Every call the code makes has
  \<^verbatim>\<open>do_sample=False\<close>.
\<close>

theorem summarize_deterministic:
  assumes "deterministic_without_sampling M"
  shows "sum_outcome (summarize_text_offline M g text)
       = sum_outcome (summarize_text_offline M g' text)"
proof (cases "text = [] \<or> strip text = []")
  case True
  then show ?thesis by (auto simp: summarize_text_offline_def)
next
  case False
  obtain r1 g1 l1 where r1: "summarize_chunks M (chunks_of (prompt_of text)) [] g [] = (r1, g1, l1)"
    by (cases "summarize_chunks M (chunks_of (prompt_of text)) [] g []") auto
  obtain r2 g2 l2 where r2: "summarize_chunks M (chunks_of (prompt_of text)) [] g' [] = (r2, g2, l2)"
    by (cases "summarize_chunks M (chunks_of (prompt_of text)) [] g' []") auto
  from summarize_chunks_deterministic [OF assms, of "chunks_of (prompt_of text)" "[]" g "[]" g' "[]"]
  have "r1 = r2" by (simp add: r1 r2)
  with False r1 r2 show ?thesis
    by (cases r2) (simp_all add: summarize_text_offline_def)
qed

theorem summarize_deterministic_witness:
  "deterministic_without_sampling sampling_model
   \<and> sum_outcome (summarize_text_offline sampling_model 0 ''hello'')
     = sum_outcome (summarize_text_offline sampling_model
         (sum_gen (summarize_text_offline sampling_model 0 ''hello'')) ''hello'')
   \<and> fst (sampling_model 0 ''hello'' 160 60 True) \<noteq> fst (sampling_model 1 ''hello'' 160 60 True)"
proof -
  have d: "deterministic_without_sampling sampling_model"
    by (simp add: deterministic_without_sampling_def sampling_model_def)
  from summarize_deterministic [OF d] d show ?thesis
    by (simp add: sampling_model_def)
qed

section \<open>Claims about the transcriber\<close>

text \<open>
  C4. For every audio source whose channel count is not 1, or whose sample width is not 2
  bytes, or whose sample rate is outside 8000 to 48000, \<open>transcribe_audio\<close> closes the
  handle and returns \<open>(None, InvalidAudioFormat)\<close>; the recognizer is not constructed and
  no frame is read (the log of reads is empty and all bytes are still unread).
\<close>

theorem transcribe_invalid_format:
  assumes "fs file_path = Some w"
    and "nchannels w \<noteq> 1 \<or> sampwidth w \<noteq> 2 \<or> framerate w < 8000 \<or> 48000 < framerate w"
  shows "transcribe_audio fs R file_path =
           \<lparr>outcome = Inr (None, Some InvalidAudioFormat),
            handle = Some \<lparr>wav = w, unread = frames w, closed = True\<rparr>,
            rec_created = False, reads = []\<rparr>"
  using assms
  by (auto simp: transcribe_audio_def wave_open_Some getnchannels_def getsampwidth_def
      getframerate_def close_def)


theorem transcribe_invalid_format_witness:
  "transcribe_audio (one_file ''stereo.wav'' stereo) (scripted [] []) ''stereo.wav'' =
     \<lparr>outcome = Inr (None, Some InvalidAudioFormat),
      handle = Some \<lparr>wav = stereo, unread = frames stereo, closed = True\<rparr>,
      rec_created = False, reads = []\<rparr>"
  using transcribe_invalid_format [where fs = "one_file ''stereo.wav'' stereo"
      and file_path = "''stereo.wav''" and w = stereo and R = "scripted [] []"]
  by (simp add: one_file_def stereo_def)

text \<open>
  C8. For every audio source that passes the format validation and every recognizer that
  does not raise on it: the reads are of 4000 frames each, one per batch of data and a
  last one that returns zero bytes; the finalized text of every batch at which the
  recognizer signals an utterance boundary is appended with one space after it, in batch
  order; the final result is appended after the loop; the handle is closed and the
  text is returned trimmed: no whitespace is left at either end, and only whitespace was
  removed.
\<close>

theorem transcribe_decodes_batches:
  assumes "fs file_path = Some w"
    and "nchannels w = 1" and "sampwidth w = 2"
    and "8000 \<le> framerate w" and "framerate w \<le> 48000"
    and "rec_create R (framerate w) = Inr s0"
    and "spec_segments R s0 (batches (4000 * 2) (frames w)) = Inr (segs, s1)"
    and "rec_FinalResult R s1 = Inr (d, s2)"
  shows "transcribe_audio fs R file_path =
           \<lparr>outcome = Inr (Some (strip (concat (map (\<lambda>p. p @ '' '') segs)
                                         @ dict_get d ''text'' [])), None),
            handle = Some \<lparr>wav = w, unread = [], closed = True\<rparr>,
            rec_created = True,
            reads = map (\<lambda>b. (4000, length b)) (batches (4000 * 2) (frames w)) @ [(4000, 0)]\<rparr>
       \<and> trimmed (concat (map (\<lambda>p. p @ '' '') segs) @ dict_get d ''text'' [])
           (strip (concat (map (\<lambda>p. p @ '' '') segs) @ dict_get d ''text'' []))"
proof
  from assms show "transcribe_audio fs R file_path =
           \<lparr>outcome = Inr (Some (strip (concat (map (\<lambda>p. p @ '' '') segs)
                                         @ dict_get d ''text'' [])), None),
            handle = Some \<lparr>wav = w, unread = [], closed = True\<rparr>,
            rec_created = True,
            reads = map (\<lambda>b. (4000, length b)) (batches (4000 * 2) (frames w)) @ [(4000, 0)]\<rparr>"
    by (rule transcribe_audio_returns)
next
  show "trimmed (concat (map (\<lambda>p. p @ '' '') segs) @ dict_get d ''text'' [])
           (strip (concat (map (\<lambda>p. p @ '' '') segs) @ dict_get d ''text'' []))"
    by (rule strip_trimmed)
qed

text \<open>
  A run in which the text before trimming has whitespace at both ends: an empty segment at
  the first boundary and an empty final result.
\<close>

theorem transcribe_decodes_batches_witness:
  "transcribe_audio clip_fs (scripted [Boundary [], Boundary ''hello world'', Silent] [])
       ''clip.wav'' =
     \<lparr>outcome = Inr (Some ''hello world'', None),
      handle = Some \<lparr>wav = clip, unread = [], closed = True\<rparr>,
      rec_created = True,
      reads = [(4000, 8000), (4000, 8000), (4000, 4000), (4000, 0)]\<rparr>"
proof -
  have t: "strip '' hello world '' = ''hello world''"
    by (simp add: strip_def lstrip_def rstrip_def isspace_def)
  from transcribe_decodes_batches [where fs = clip_fs and file_path = "''clip.wav''" and w = clip,
      OF clip_fields scripted_create segments_padded scripted_final]
  show ?thesis
    by (simp add: clip_batches dict_get_def t)
qed

text \<open>
  C3, as stated: when the recognizer errors during the decoding loop, the transcriber
  returns the pair \<open>(None, error)\<close>. The code has no handler around the recognizer: with
  a recognizer that raises on the first batch, the exception leaves \<open>transcribe_audio\<close>
  and nothing is returned.
\<close>

theorem transcribe_recognizer_error_counterexample:
  "outcome (transcribe_audio clip_fs (scripted [Corrupt] ''bye'') ''clip.wav'')
     = Inl (Exception ''corrupt frame data'')
   \<and> \<not> returns_error
       (outcome (transcribe_audio clip_fs (scripted [Corrupt] ''bye'') ''clip.wav''))"
  using transcribe_audio_raises [where fs = clip_fs and file_path = "''clip.wav''" and w = clip,
      OF clip_fields scripted_create segments_corrupt_first]
  by (simp add: returns_error_def)

text \<open>
  C3, amended: for every audio source that passes the format validation, when the
  recognizer raises while the batches are fed to it, that exception propagates out of
  \<open>transcribe_audio\<close>: the whole decode is aborted and no transcript, partial or whole,
  is returned.
\<close>

theorem transcribe_recognizer_error_propagates:
  assumes "fs file_path = Some w"
    and "nchannels w = 1" and "sampwidth w = 2"
    and "8000 \<le> framerate w" and "framerate w \<le> 48000"
    and "rec_create R (framerate w) = Inr s0"
    and "spec_segments R s0 (batches (4000 * 2) (frames w)) = Inl e"
  shows "outcome (transcribe_audio fs R file_path) = Inl e"
  using assms transcribe_audio_raises [where fs = fs and file_path = file_path and w = w
      and R = R and ?s0.0 = s0 and e = e]
  by blast

theorem transcribe_recognizer_error_propagates_witness:
  "outcome (transcribe_audio clip_fs (scripted [Boundary ''hello'', Corrupt] ''bye'') ''clip.wav'')
     = Inl (Exception ''corrupt frame data'')"
  using transcribe_recognizer_error_propagates [where fs = clip_fs
      and file_path = "''clip.wav''" and w = clip, OF clip_fields scripted_create segments_corrupt_second]
  by simp

text \<open>
  C1. The claim asks for the audio handle to be closed on every exit path. For every audio
  source that passes the format validation, when the recognizer raises while the batches
  are fed to it, the exception leaves \<open>transcribe_audio\<close> with the handle still open:
  \<^verbatim>\<open>audio.close()\<close> is called on the two return paths only.
\<close>

theorem transcribe_handle_left_open:
  assumes "fs file_path = Some w"
    and "nchannels w = 1" and "sampwidth w = 2"
    and "8000 \<le> framerate w" and "framerate w \<le> 48000"
    and "rec_create R (framerate w) = Inr s0"
    and "spec_segments R s0 (batches (4000 * 2) (frames w)) = Inl e"
  shows "isl (outcome (transcribe_audio fs R file_path))
       \<and> map_option closed (handle (transcribe_audio fs R file_path)) = Some False"
  using assms transcribe_audio_raises [where fs = fs and file_path = file_path and w = w
      and R = R and ?s0.0 = s0 and e = e]
  by simp

text \<open>
  The failing input: a valid file of three batches and a recognizer that signals a
  boundary on the first batch and raises on the second.
\<close>

theorem transcribe_leaks_handle:
  "isl (outcome
     (transcribe_audio clip_fs (scripted [Boundary ''hello'', Corrupt] ''bye'') ''clip.wav''))
   \<and> map_option closed
       (handle (transcribe_audio clip_fs (scripted [Boundary ''hello'', Corrupt] ''bye'')
          ''clip.wav'')) = Some False"
  using transcribe_handle_left_open [where fs = clip_fs and file_path = "''clip.wav''"
      and w = clip, OF clip_fields scripted_create segments_corrupt_second]
  by simp

text \<open>
  C10. A space is appended after every boundary segment, the empty ones too: with the
  finalized texts \<open>hello\<close> and the empty string at two boundaries and the final
  result \<open>world\<close>, the transcript has two consecutive spaces.
\<close>

theorem transcribe_keeps_empty_segment:
  "outcome (transcribe_audio clip_fs
       (scripted [Boundary ''hello'', Boundary [], Silent] ''world'') ''clip.wav'')
     = Inr (Some ''hello  world'', None)"
  using transcribe_audio_returns [where fs = clip_fs and file_path = "''clip.wav''" and w = clip,
      OF clip_fields scripted_create segments_empty_boundary scripted_final]
  by (simp add: dict_get_def strip_def lstrip_def rstrip_def isspace_def)

text \<open>
  So the transcript is not the single-space join of the non-empty recognized segments.
\<close>

theorem transcribe_not_join_of_segments:
  "outcome (transcribe_audio clip_fs
       (scripted [Boundary ''hello'', Boundary [], Silent] ''world'') ''clip.wav'')
     \<noteq> Inr (Some (join '' '' (filter (\<lambda>seg. seg \<noteq> []) [''hello'', [], ''world''])), None)"
  using transcribe_keeps_empty_segment by simp

end
